theory Spec2Isabelle
  imports Main "HOL-Library.Sublist"
begin

section \<open>Python values used by \<^verbatim>\<open>cytomat/serial_port.py\<close>\<close>

text \<open>
  A Python \<^verbatim>\<open>str\<close> is a sequence of Unicode code points, a \<^verbatim>\<open>bytes\<close> object a
  sequence of octets.  Code points are natural numbers (so that a command may hold
  characters outside ASCII), octets are \<^typ>\<open>char\<close>, which has exactly 256 values.
\<close>

type_synonym pystr = "nat list"
type_synonym bytes = "char list"

text \<open>A \<^verbatim>\<open>str\<close> literal of the source, written with its ASCII text.\<close>

definition ustr :: "string \<Rightarrow> pystr" where
  "ustr s = map of_char s"

text \<open>The terminator \<^verbatim>\<open>b"\r"\<close> and the apostrophe used inside the messages.\<close>

definition CR :: char where
  "CR = CHR 0x0D"

definition apostrophe :: string where
  "apostrophe = [CHR 0x27]"

text \<open>
  An f-string is kept as the sequence of its fragments: the literal text of the source and
  the interpolated values (a \<^verbatim>\<open>str\<close> is inserted as it is, a \<^verbatim>\<open>bytes\<close> value through
  its \<^verbatim>\<open>repr\<close>, which is left to Python).
\<close>

datatype frag = Lit string | Fstr pystr | Fbytes bytes

type_synonym message = "frag list"

text \<open>
  The exceptions that can leave the three operations.  \<open>LockTimeout\<close> is the Timeout error
  of \<^verbatim>\<open>lock_threading_lock\<close>, \<open>SerialTimeoutException\<close> the write timeout of the channel,
  \<open>DeviceError\<close> the Communication error built by
  \<^verbatim>\<open>SerialCommunicationError.from_error_code\<close>.
\<close>

datatype exn =
    TimeoutError message
  | LockTimeout
  | SerialTimeoutException
  | SerialCommunicationError message
  | DeviceError int
  | UnexpectedResponse message
  | InvalidCommand message
  | UnicodeEncodeError
  | UnicodeDecodeError
  | ValueError

subsection \<open>\<^verbatim>\<open>str.startswith\<close>, \<^verbatim>\<open>bytes.endswith\<close>, \<^verbatim>\<open>str.strip\<close>\<close>

definition startswith :: "'a list \<Rightarrow> 'a list \<Rightarrow> bool" where
  "startswith s p = prefix p s"

definition endswith :: "'a list \<Rightarrow> 'a list \<Rightarrow> bool" where
  "endswith s p = suffix p s"

text \<open>
  \<^verbatim>\<open>str.isspace\<close> for one code point: the characters of bidirectional type WS, B or S and
  of category Zs.
\<close>

definition isspace :: "nat \<Rightarrow> bool" where
  "isspace c \<longleftrightarrow>
     (9 \<le> c \<and> c \<le> 13) \<or> (28 \<le> c \<and> c \<le> 32) \<or> c = 133 \<or> c = 160 \<or> c = 5760 \<or>
     (8192 \<le> c \<and> c \<le> 8202) \<or> c = 8232 \<or> c = 8233 \<or> c = 8239 \<or> c = 8287 \<or> c = 12288"

definition strip :: "pystr \<Rightarrow> pystr" where
  "strip s = rev (dropWhile isspace (rev (dropWhile isspace s)))"

subsection \<open>\<^verbatim>\<open>str.encode("ascii")\<close> and \<^verbatim>\<open>bytes.decode("ascii")\<close>\<close>

definition encode_ascii :: "pystr \<Rightarrow> exn + bytes" where
  "encode_ascii s =
     (if list_all (\<lambda>c. c < 128) s then Inr (map char_of s) else Inl UnicodeEncodeError)"

definition decode_ascii :: "bytes \<Rightarrow> exn + pystr" where
  "decode_ascii bs =
     (if list_all (\<lambda>b. (of_char b :: nat) < 128) bs then Inr (ustr bs)
      else Inl UnicodeDecodeError)"

subsection \<open>\<^verbatim>\<open>int(s, base=16)\<close>\<close>

text \<open>
  \<^verbatim>\<open>int\<close> with base 16, on a \<^verbatim>\<open>str\<close> of ASCII characters: it skips the whitespace
  of the C locale on both sides, accepts one sign, an optional \<^verbatim>\<open>0x\<close> or \<^verbatim>\<open>0X\<close>
  prefix (with one underscore allowed after it), and hexadecimal digits separated by single
  underscores; everything else is a \<^verbatim>\<open>ValueError\<close>.  The argument that reaches it in
  \<^verbatim>\<open>issue_action_command\<close> was decoded as ASCII, so the digits outside ASCII that
  Python would also accept are not modelled.
\<close>

definition c_isspace :: "nat \<Rightarrow> bool" where
  "c_isspace c \<longleftrightarrow> (9 \<le> c \<and> c \<le> 13) \<or> c = 32"

definition hex_digit :: "nat \<Rightarrow> nat option" where
  "hex_digit c =
     (if 48 \<le> c \<and> c \<le> 57 then Some (c - 48)
      else if 97 \<le> c \<and> c \<le> 102 then Some (c - 87)
      else if 65 \<le> c \<and> c \<le> 70 then Some (c - 55)
      else None)"

text \<open>The digits after the first one: \<open>acc\<close> is the value read so far.\<close>

fun hex_digits :: "nat \<Rightarrow> pystr \<Rightarrow> nat option" where
  "hex_digits acc [] = Some acc"
| "hex_digits acc [c] =
     (case hex_digit c of None \<Rightarrow> None | Some v \<Rightarrow> Some (16 * acc + v))"
| "hex_digits acc (c # d # ds) =
     (if c = 95 then
        (case hex_digit d of None \<Rightarrow> None | Some v \<Rightarrow> hex_digits (16 * acc + v) ds)
      else
        (case hex_digit c of None \<Rightarrow> None | Some v \<Rightarrow> hex_digits (16 * acc + v) (d # ds)))"

text \<open>The unsigned numeral, after whitespace and sign are gone.\<close>

definition hex_numeral :: "pystr \<Rightarrow> nat option" where
  "hex_numeral s =
     (let t = (case s of
                 a # b # r \<Rightarrow>
                   if a = 48 \<and> (b = 120 \<or> b = 88)
                   then (case r of u # r' \<Rightarrow> if u = 95 then r' else r | [] \<Rightarrow> r)
                   else s
               | _ \<Rightarrow> s)
      in case t of
           [] \<Rightarrow> None
         | c # cs \<Rightarrow> (case hex_digit c of None \<Rightarrow> None | Some v \<Rightarrow> hex_digits v cs))"

definition int16 :: "pystr \<Rightarrow> exn + int" where
  "int16 s =
     (case rev (dropWhile c_isspace (rev (dropWhile c_isspace s))) of
        [] \<Rightarrow> Inl ValueError
      | c # cs \<Rightarrow>
          if c = 45 then
            (case hex_numeral cs of None \<Rightarrow> Inl ValueError | Some n \<Rightarrow> Inr (- int n))
          else if c = 43 then
            (case hex_numeral cs of None \<Rightarrow> Inl ValueError | Some n \<Rightarrow> Inr (int n))
          else
            (case hex_numeral (c # cs) of None \<Rightarrow> Inl ValueError | Some n \<Rightarrow> Inr (int n)))"

section \<open>The channel\<close>

text \<open>
  The serial line (\<^verbatim>\<open>serial.Serial\<close>) is an external collaborator.  Its state holds the
  bytes already received and not yet read, every frame handed to \<^verbatim>\<open>write\<close>, and what the
  device and the line will do: \<open>arrivals ch k\<close> are the bytes that reach the input buffer
  during the \<open>k\<close>-th wait of a \<^verbatim>\<open>read\<close> that found the buffer empty (no bytes: the read
  timeout elapses), and \<open>tx_ready\<close> tells whether a write completes within the write
  timeout.  A device may go on sending for ever, so the arrivals are an infinite sequence.
  Bytes reach the buffer only while a read waits for them; what the line delivers between
  two calls shows in the state that the next call starts from.
\<close>

record channel =
  in_buffer :: bytes
  arrivals :: "nat \<Rightarrow> bytes"
  written :: "bytes list"
  tx_ready :: bool

definition in_waiting :: "channel \<Rightarrow> nat" where
  "in_waiting ch = length (in_buffer ch)"

definition port_write :: "bytes \<Rightarrow> channel \<Rightarrow> (exn + unit) \<times> channel" where
  "port_write data ch =
     (if tx_ready ch then (Inr (), ch\<lparr>written := written ch @ [data]\<rparr>)
      else (Inl SerialTimeoutException, ch))"

text \<open>\<^verbatim>\<open>read()\<close> asks for one byte and returns it, or no byte after the timeout.\<close>

definition port_read :: "channel \<Rightarrow> bytes \<times> channel" where
  "port_read ch =
     (case in_buffer ch of
        b # bs \<Rightarrow> ([b], ch\<lparr>in_buffer := bs\<rparr>)
      | [] \<Rightarrow>
          (case arrivals ch 0 of
             [] \<Rightarrow> ([], ch\<lparr>arrivals := (\<lambda>k. arrivals ch (Suc k))\<rparr>)
           | b # bs \<Rightarrow> ([b], ch\<lparr>in_buffer := bs, arrivals := (\<lambda>k. arrivals ch (Suc k))\<rparr>)))"

section \<open>The transaction engine (\<^verbatim>\<open>class SerialPort\<close>)\<close>

text \<open>
  The object holds the channel and the lock (\<open>True\<close>: held).  Its third field, the timeout,
  is a duration that is only handed to the channel and to the lock; what happens within it
  is part of the channel's state above and of the lock's state.
\<close>

record SerialPort =
  port :: channel
  lock :: bool

type_synonym 'a outcome = "((exn + 'a) \<times> SerialPort) option"

text \<open>
  Modelled from the spec: \<^verbatim>\<open>cytomat.utils.lock_threading_lock\<close> is not among the sources.
  The spec: scoped acquisition of the transaction lock with an acquisition timeout; if the
  lock cannot be acquired in time the call fails with a Timeout error; the lock is released
  on every exit path of the block.  A lock that is held stays held for the whole wait, as
  nothing else runs in this sequential model.
\<close>

definition lock_threading_lock :: "(SerialPort \<Rightarrow> 'a outcome) \<Rightarrow> SerialPort \<Rightarrow> 'a outcome" where
  "lock_threading_lock body self =
     (if lock self then Some (Inl LockTimeout, self)
      else (case body (self\<lparr>lock := True\<rparr>) of
              None \<Rightarrow> None
            | Some (r, self') \<Rightarrow> Some (r, self'\<lparr>lock := False\<rparr>)))"

text \<open>
  The \<^verbatim>\<open>while\<close> loop of \<^verbatim>\<open>communicate\<close>.  It ends with the response, or with the
  Timeout error; it does not end while bytes other than the terminator keep arriving.
\<close>

partial_function (option) read_loop ::
  "pystr \<Rightarrow> bytes \<Rightarrow> channel \<Rightarrow> ((exn + bytes) \<times> channel) option" where
  "read_loop command raw_response ch =
     (if endswith raw_response [CR] then Some (Inr raw_response, ch)
      else
        (case port_read ch of
           (char, ch') \<Rightarrow>
             (let raw_response' = raw_response @ char in
              if char = [] then
                Some (Inl (TimeoutError
                  [Lit ''Query: '', Fstr command, Lit '', Error: Captured '', Fbytes char,
                   Lit '' as the last character of '', Fbytes raw_response', Lit ''.'']), ch')
              else read_loop command raw_response' ch')))"

text \<open>The block under \<^verbatim>\<open>with\<close>: lines 60 to 74.\<close>

definition communicate_locked :: "pystr \<Rightarrow> SerialPort \<Rightarrow> bytes outcome" where
  "communicate_locked command self =
     (if in_waiting (port self) \<noteq> 0 then
        Some (Inl (SerialCommunicationError
          [Lit ''There were unread bytes in the input buffer'']), self)
      else
        (case encode_ascii command of
           Inl e \<Rightarrow> Some (Inl e, self)
         | Inr encoded \<Rightarrow>
             (let raw_command = encoded @ [CR] in
              case port_write raw_command (port self) of
                (Inl e, ch) \<Rightarrow> Some (Inl e, self\<lparr>port := ch\<rparr>)
              | (Inr _, ch) \<Rightarrow>
                  (case read_loop command [] ch of
                     None \<Rightarrow> None
                   | Some (r, ch') \<Rightarrow> Some (r, self\<lparr>port := ch'\<rparr>)))))"

definition communicate :: "pystr \<Rightarrow> SerialPort \<Rightarrow> pystr outcome" where
  "communicate command self =
     (case lock_threading_lock (communicate_locked command) self of
        None \<Rightarrow> None
      | Some (Inl e, self') \<Rightarrow> Some (Inl e, self')
      | Some (Inr raw_response, self') \<Rightarrow> Some (decode_ascii (butlast raw_response), self'))"

definition check_prefix_and_strip :: "pystr \<Rightarrow> pystr \<Rightarrow> exn + pystr" where
  "check_prefix_and_strip response expected_prefix =
     (if startswith response expected_prefix then
        Inr (strip (drop (length expected_prefix) response))
      else
        Inl (UnexpectedResponse
          [Lit (''Expected response prefix '' @ apostrophe), Fstr expected_prefix,
           Lit (apostrophe @ '', got response '' @ apostrophe), Fstr response,
           Lit apostrophe]))"

text \<open>
  Modelled from the spec: \<^verbatim>\<open>cytomat.errors\<close> is not among the sources.  The spec: an
  \<^verbatim>\<open>er\<close> response fails with a Communication error carrying the error code.
\<close>

definition from_error_code :: "int \<Rightarrow> exn" where
  "from_error_code code = DeviceError code"

text \<open>
  \<^verbatim>\<open>PlateShuttleSystemStatus.from_hex_string\<close> (\<^verbatim>\<open>cytomat.status\<close>) is not among the
  sources either; it is the parameter \<open>from_hex_string\<close>, which returns a status or raises.
\<close>

definition issue_action_command ::
  "(pystr \<Rightarrow> exn + 'status) \<Rightarrow> pystr \<Rightarrow> SerialPort \<Rightarrow> 'status outcome" where
  "issue_action_command from_hex_string command self =
     (case communicate command self of
        None \<Rightarrow> None
      | Some (Inl e, self') \<Rightarrow> Some (Inl e, self')
      | Some (Inr response, self') \<Rightarrow>
          if startswith response (ustr ''ok'') then
            Some ((case check_prefix_and_strip response (ustr ''ok'') of
                     Inl e \<Rightarrow> Inl e
                   | Inr s \<Rightarrow> from_hex_string s), self')
          else if startswith response (ustr ''er'') then
            Some ((case check_prefix_and_strip response (ustr ''er'') of
                     Inl e \<Rightarrow> Inl e
                   | Inr s \<Rightarrow> (case int16 s of
                                Inl e \<Rightarrow> Inl e
                              | Inr code \<Rightarrow> Inl (from_error_code code))), self')
          else
            Some (Inl (UnexpectedResponse
              [Lit (''Expected response like '' @ apostrophe @ ''ok XX'' @ apostrophe @
                    '' or '' @ apostrophe @ ''er XX'' @ apostrophe @ '', got '' @ apostrophe),
               Fstr response, Lit apostrophe]), self'))"

text \<open>
  \<^verbatim>\<open>re.fullmatch("ch:[a-z]{2}.*", command)\<close>: the three characters \<^verbatim>\<open>ch:\<close>, two
  characters between \<^verbatim>\<open>a\<close> and \<^verbatim>\<open>z\<close>, and then, up to the end of the command, characters
  that \<^verbatim>\<open>.\<close> matches: all but the line feed.
\<close>

definition fullmatch_status :: "pystr \<Rightarrow> bool" where
  "fullmatch_status command \<longleftrightarrow>
     take 3 command = ustr ''ch:'' \<and>
     5 \<le> length command \<and> list_all (\<lambda>c. 97 \<le> c \<and> c \<le> 122) (take 2 (drop 3 command)) \<and>
     list_all (\<lambda>c. c \<noteq> 10) (drop 5 command)"

definition issue_status_command :: "pystr \<Rightarrow> SerialPort \<Rightarrow> pystr outcome" where
  "issue_status_command command self =
     (if \<not> fullmatch_status command then
        Some (Inl (InvalidCommand
          [Lit (''Expected command like '' @ apostrophe @ ''ch:xx'' @ apostrophe @ '' or '' @
                apostrophe @ ''ch:xx ...'' @ apostrophe @ '', got '' @ apostrophe),
           Fstr command, Lit apostrophe]), self)
      else
        (case communicate command self of
           None \<Rightarrow> None
         | Some (Inl e, self') \<Rightarrow> Some (Inl e, self')
         | Some (Inr response, self') \<Rightarrow>
             Some (check_prefix_and_strip response (take 2 (drop 3 command)), self')))"

text \<open>
  The shape of a status command in the spec's own words, to compare with
  \<open>fullmatch_status\<close>: \<^verbatim>\<open>ch:\<close>, exactly two lowercase letters, and an arbitrary optional
  trailer.
\<close>

definition status_shape_spec :: "pystr \<Rightarrow> bool" where
  "status_shape_spec command \<longleftrightarrow>
     take 3 command = ustr ''ch:'' \<and> 5 \<le> length command \<and>
     list_all (\<lambda>c. 97 \<le> c \<and> c \<le> 122) (take 2 (drop 3 command))"

section \<open>Fixtures\<close>

text \<open>
  An engine on a freshly opened line: nothing buffered, nothing written, the lock free, and a
  device that sends the given chunks, one for each wait, and is silent afterwards.
\<close>

definition quiet_device :: "bytes list \<Rightarrow> SerialPort" where
  "quiet_device chunks =
     \<lparr>port = \<lparr>in_buffer = [], arrivals = (\<lambda>k. if k < length chunks then chunks ! k else []),
              written = [], tx_ready = True\<rparr>,
      lock = False\<rparr>"

declare read_loop.simps [code]

section \<open>Encoding and decoding\<close>

lemma ustr_ascii: "list_all (\<lambda>c. c < 128) (ustr s) \<longleftrightarrow> list_all (\<lambda>b. (of_char b :: nat) < 128) s"
  by (simp add: ustr_def list_all_iff)

lemma encode_ustr: "map char_of (ustr s) = s"
  by (simp add: ustr_def)

section \<open>The read loop, step by step\<close>

lemma endswith_Nil: "\<not> endswith [] [CR]"
  by (simp add: endswith_def)

lemma endswith_snoc: "endswith (acc @ [b]) [CR] \<longleftrightarrow> b = CR"
  by (auto simp: endswith_def suffix_def)

lemma read_loop_done:
  "endswith acc [CR] \<Longrightarrow> read_loop command acc ch = Some (Inr acc, ch)"
  by (subst read_loop.simps) simp

lemma read_loop_buffer_step:
  assumes "\<not> endswith acc [CR]" and "in_buffer ch = b # bs"
  shows "read_loop command acc ch = read_loop command (acc @ [b]) (ch\<lparr>in_buffer := bs\<rparr>)"
  using assms by (subst read_loop.simps) (simp add: port_read_def)

lemma read_loop_load:
  assumes "\<not> endswith acc [CR]" and "in_buffer ch = []" and "arrivals ch 0 \<noteq> []"
  shows "read_loop command acc ch =
         read_loop command acc (ch\<lparr>in_buffer := arrivals ch 0, arrivals := (\<lambda>k. arrivals ch (Suc k))\<rparr>)"
proof -
  obtain b bs where c: "arrivals ch 0 = b # bs"
    using assms(3) by (cases "arrivals ch 0") auto
  let ?next = "ch\<lparr>in_buffer := bs, arrivals := (\<lambda>k. arrivals ch (Suc k))\<rparr>"
  have "port_read ch = ([b], ?next)"
    using assms(2) c by (simp add: port_read_def)
  moreover have "port_read (ch\<lparr>in_buffer := arrivals ch 0, arrivals := (\<lambda>k. arrivals ch (Suc k))\<rparr>)
                 = ([b], ?next)"
    using c by (cases ch) (simp add: port_read_def)
  ultimately show ?thesis
    using assms(1) by (subst read_loop.simps, subst (2) read_loop.simps) simp
qed

lemma read_loop_timeout:
  assumes "\<not> endswith acc [CR]" and "in_buffer ch = []" and "arrivals ch 0 = []"
  shows "read_loop command acc ch =
         Some (Inl (TimeoutError
                 [Lit ''Query: '', Fstr command, Lit '', Error: Captured '', Fbytes [],
                  Lit '' as the last character of '', Fbytes acc, Lit ''.'']),
               ch\<lparr>arrivals := (\<lambda>k. arrivals ch (Suc k))\<rparr>)"
  using assms by (subst read_loop.simps) (simp add: port_read_def)

lemma read_loop_drain:
  assumes "CR \<notin> set buf" and "\<not> endswith acc [CR]" and "in_buffer ch = buf @ rest"
  shows "read_loop command acc ch = read_loop command (acc @ buf) (ch\<lparr>in_buffer := rest\<rparr>)"
  using assms
proof (induction buf arbitrary: acc ch)
  case Nil
  then have "ch\<lparr>in_buffer := rest\<rparr> = ch" by simp
  then show ?case by simp
next
  case (Cons b buf)
  have "read_loop command acc ch = read_loop command (acc @ [b]) (ch\<lparr>in_buffer := buf @ rest\<rparr>)"
    using Cons.prems by (intro read_loop_buffer_step) auto
  also have "\<dots> = read_loop command ((acc @ [b]) @ buf) (ch\<lparr>in_buffer := buf @ rest, in_buffer := rest\<rparr>)"
    using Cons.prems by (intro Cons.IH) (auto simp: endswith_snoc)
  finally show ?case by simp
qed


lemma read_loop_chunks:
  assumes "\<not> endswith acc [CR]" and "in_buffer ch = []"
    and "\<forall>i<k. arrivals ch i \<noteq> [] \<and> CR \<notin> set (arrivals ch i)"
  shows "read_loop command acc ch =
         read_loop command (acc @ concat (map (arrivals ch) [0..<k]))
           (ch\<lparr>arrivals := (\<lambda>i. arrivals ch (i + k))\<rparr>)"
  using assms
proof (induction k arbitrary: acc ch)
  case 0
  then show ?case by simp
next
  case (Suc k)
  let ?c = "arrivals ch 0"
  let ?shift = "\<lambda>i. arrivals ch (Suc i)"
  have c: "?c \<noteq> []" "CR \<notin> set ?c"
    using Suc.prems(3) by auto
  have "read_loop command acc ch = read_loop command acc (ch\<lparr>in_buffer := ?c, arrivals := ?shift\<rparr>)"
    using Suc.prems(1,2) c(1) by (rule read_loop_load)
  also have "\<dots> = read_loop command (acc @ ?c) (ch\<lparr>in_buffer := ?c, arrivals := ?shift, in_buffer := []\<rparr>)"
    using c(2) Suc.prems(1) by (rule read_loop_drain) simp
  also have "ch\<lparr>in_buffer := ?c, arrivals := ?shift, in_buffer := []\<rparr> = ch\<lparr>arrivals := ?shift\<rparr>"
    using Suc.prems(2) by (cases ch) simp
  also have "read_loop command (acc @ ?c) (ch\<lparr>arrivals := ?shift\<rparr>) =
             read_loop command ((acc @ ?c) @ concat (map (arrivals (ch\<lparr>arrivals := ?shift\<rparr>)) [0..<k]))
               (ch\<lparr>arrivals := ?shift, arrivals := (\<lambda>i. arrivals (ch\<lparr>arrivals := ?shift\<rparr>) (i + k))\<rparr>)"
  proof (rule Suc.IH)
    show "\<not> endswith (acc @ ?c) [CR]"
      using c by (cases ?c rule: rev_cases) (auto simp: endswith_snoc simp flip: append_assoc)
    show "in_buffer (ch\<lparr>arrivals := ?shift\<rparr>) = []"
      using Suc.prems(2) by simp
    show "\<forall>i<k. arrivals (ch\<lparr>arrivals := ?shift\<rparr>) i \<noteq> [] \<and> CR \<notin> set (arrivals (ch\<lparr>arrivals := ?shift\<rparr>) i)"
      using Suc.prems(3) by simp
  qed
  also have "(acc @ ?c) @ concat (map (arrivals (ch\<lparr>arrivals := ?shift\<rparr>)) [0..<k])
             = acc @ concat (map (arrivals ch) [0..<Suc k])"
  proof -
    have "map (arrivals ch) [0..<Suc k] = ?c # map ?shift [0..<k]"
      by (simp only: upt_conv_Cons [of 0 "Suc k"] map_Suc_upt [symmetric]) simp
    then show ?thesis by simp
  qed
  finally show ?case by simp
qed

lemma endswith_mem: "endswith xs [CR] \<Longrightarrow> CR \<in> set xs"
proof -
  assume "endswith xs [CR]"
  then obtain zs where "xs = zs @ [CR]"
    by (auto simp: endswith_def suffix_def)
  then show ?thesis by simp
qed

lemma communicate_locked_read:
  assumes "in_buffer (port self) = []" and "tx_ready (port self)"
    and "list_all (\<lambda>c. c < 128) command"
  shows "communicate_locked command self =
         (case read_loop command [] (port self\<lparr>written := written (port self) @ [map char_of command @ [CR]]\<rparr>) of
            None \<Rightarrow> None
          | Some (r, ch') \<Rightarrow> Some (r, self\<lparr>port := ch'\<rparr>))"
  using assms by (simp add: communicate_locked_def in_waiting_def encode_ascii_def port_write_def)

lemma read_loop_response:
  assumes "in_buffer ch = []"
    and "\<forall>i<k. arrivals ch i \<noteq> [] \<and> CR \<notin> set (arrivals ch i)"
    and "arrivals ch k = pre @ CR # post" and "CR \<notin> set pre"
  shows "read_loop command [] ch =
         Some (Inr (concat (map (arrivals ch) [0..<k]) @ pre @ [CR]),
               ch\<lparr>in_buffer := post, arrivals := (\<lambda>i. arrivals ch (i + Suc k))\<rparr>)"
proof -
  let ?got = "concat (map (arrivals ch) [0..<k])"
  let ?ch1 = "ch\<lparr>arrivals := (\<lambda>i. arrivals ch (i + k))\<rparr>"
  let ?ch2 = "?ch1\<lparr>in_buffer := arrivals ?ch1 0, arrivals := (\<lambda>i. arrivals ?ch1 (Suc i))\<rparr>"
  have got: "\<not> endswith ?got [CR]"
  proof
    assume "endswith ?got [CR]"
    then have "CR \<in> set ?got"
      by (rule endswith_mem)
    then show False using assms(2) by auto
  qed
  have "read_loop command [] ch = read_loop command ([] @ ?got) ?ch1"
    using endswith_Nil assms(1,2) by (rule read_loop_chunks)
  also have "\<dots> = read_loop command ?got ?ch2"
    using got assms(1,3) by (simp add: read_loop_load)
  also have "\<dots> = read_loop command (?got @ pre) (?ch2\<lparr>in_buffer := CR # post\<rparr>)"
    using assms(4) got by (rule read_loop_drain) (simp add: assms(3))
  also have "\<dots> = read_loop command ((?got @ pre) @ [CR]) (?ch2\<lparr>in_buffer := CR # post, in_buffer := post\<rparr>)"
  proof (rule read_loop_buffer_step)
    show "\<not> endswith (?got @ pre) [CR]"
      using got assms(4) by (cases pre rule: rev_cases) (auto simp: endswith_snoc simp flip: append_assoc)
  qed simp
  also have "\<dots> = Some (Inr ((?got @ pre) @ [CR]), ?ch2\<lparr>in_buffer := CR # post, in_buffer := post\<rparr>)"
    by (rule read_loop_done) (rule endswith_snoc [THEN iffD2, OF refl])
  also have "?ch2\<lparr>in_buffer := CR # post, in_buffer := post\<rparr>
             = ch\<lparr>in_buffer := post, arrivals := (\<lambda>i. arrivals ch (i + Suc k))\<rparr>"
    by (cases ch) simp
  finally show ?thesis by simp
qed

lemma read_loop_silence:
  assumes "in_buffer ch = []"
    and "\<forall>i<k. arrivals ch i \<noteq> [] \<and> CR \<notin> set (arrivals ch i)"
    and "arrivals ch k = []"
  shows "read_loop command [] ch =
         Some (Inl (TimeoutError
                 [Lit ''Query: '', Fstr command, Lit '', Error: Captured '', Fbytes [],
                  Lit '' as the last character of '',
                  Fbytes (concat (map (arrivals ch) [0..<k])), Lit ''.'']),
               ch\<lparr>arrivals := (\<lambda>i. arrivals ch (i + Suc k))\<rparr>)"
proof -
  let ?got = "concat (map (arrivals ch) [0..<k])"
  let ?ch1 = "ch\<lparr>arrivals := (\<lambda>i. arrivals ch (i + k))\<rparr>"
  have got: "\<not> endswith ?got [CR]"
  proof
    assume "endswith ?got [CR]"
    then have "CR \<in> set ?got"
      by (rule endswith_mem)
    then show False using assms(2) by auto
  qed
  have "read_loop command [] ch = read_loop command ([] @ ?got) ?ch1"
    using endswith_Nil assms(1,2) by (rule read_loop_chunks)
  also have "\<dots> = Some (Inl (TimeoutError
                 [Lit ''Query: '', Fstr command, Lit '', Error: Captured '', Fbytes [],
                  Lit '' as the last character of '', Fbytes ?got, Lit ''.'']),
               ?ch1\<lparr>arrivals := (\<lambda>i. arrivals ?ch1 (Suc i))\<rparr>)"
    using got assms(1,3) by (simp add: read_loop_timeout)
  finally show ?thesis by simp
qed

section \<open>A response needs a terminator\<close>

lemma port_read_cases:
  obtains (buffered) b bs where "in_buffer ch = b # bs" "port_read ch = ([b], ch\<lparr>in_buffer := bs\<rparr>)"
  | (silent) "in_buffer ch = []" "arrivals ch 0 = []"
      "port_read ch = ([], ch\<lparr>arrivals := (\<lambda>k. arrivals ch (Suc k))\<rparr>)"
  | (arrived) b bs where "in_buffer ch = []" "arrivals ch 0 = b # bs"
      "port_read ch = ([b], ch\<lparr>in_buffer := bs, arrivals := (\<lambda>k. arrivals ch (Suc k))\<rparr>)"
  by (cases "in_buffer ch"; cases "arrivals ch 0") (auto simp: port_read_def)

lemma read_loop_reach:
  assumes "read_loop command0 acc0 ch0 = Some y0"
  shows "\<forall>raw ch'. y0 = (Inr raw, ch') \<longrightarrow> \<not> endswith acc0 [CR] \<longrightarrow>
          CR \<in> set (in_buffer ch0) \<or>
          (\<exists>k. (\<forall>i<k. arrivals ch0 i \<noteq> [] \<and> CR \<notin> set (arrivals ch0 i)) \<and>
               CR \<in> set (arrivals ch0 k))"
proof (rule read_loop.raw_induct
    [where P = "\<lambda>command acc ch y. \<forall>raw ch'. y = (Inr raw, ch') \<longrightarrow> \<not> endswith acc [CR] \<longrightarrow>
          CR \<in> set (in_buffer ch) \<or>
          (\<exists>k. (\<forall>i<k. arrivals ch i \<noteq> [] \<and> CR \<notin> set (arrivals ch i)) \<and>
               CR \<in> set (arrivals ch k))", OF _ assms])
  fix loop :: "pystr \<Rightarrow> bytes \<Rightarrow> channel \<Rightarrow> ((exn + bytes) \<times> channel) option"
  fix command acc ch y
  assume IH: "\<And>command acc ch y. loop command acc ch = Some y \<Longrightarrow>
          \<forall>raw ch'. y = (Inr raw, ch') \<longrightarrow> \<not> endswith acc [CR] \<longrightarrow>
          CR \<in> set (in_buffer ch) \<or>
          (\<exists>k. (\<forall>i<k. arrivals ch i \<noteq> [] \<and> CR \<notin> set (arrivals ch i)) \<and>
               CR \<in> set (arrivals ch k))"
  assume step: "(if endswith acc [CR] then Some (Inr acc, ch)
      else case port_read ch of
           (char, ch') \<Rightarrow>
             let raw_response' = acc @ char
             in if char = []
                then Some
                      (Inl (TimeoutError
                             [Lit ''Query: '', Fstr command,
                              Lit '', Error: Captured '', Fbytes char,
                              Lit '' as the last character of '',
                              Fbytes raw_response', Lit ''.'']),
                       ch')
                else loop command raw_response' ch') = Some y"
  show "\<forall>raw ch'. y = (Inr raw, ch') \<longrightarrow> \<not> endswith acc [CR] \<longrightarrow>
          CR \<in> set (in_buffer ch) \<or>
          (\<exists>k. (\<forall>i<k. arrivals ch i \<noteq> [] \<and> CR \<notin> set (arrivals ch i)) \<and>
               CR \<in> set (arrivals ch k))"

    proof (intro allI impI)
      fix raw ch'
      assume y: "y = (Inr raw, ch')" and open_frame: "\<not> endswith acc [CR]"
      show "CR \<in> set (in_buffer ch) \<or>
          (\<exists>k. (\<forall>i<k. arrivals ch i \<noteq> [] \<and> CR \<notin> set (arrivals ch i)) \<and>
               CR \<in> set (arrivals ch k))"
      proof (cases ch rule: port_read_cases)
        case (buffered b bs)
        show ?thesis
        proof (cases "b = CR")
          case True
          then show ?thesis using buffered(1) by simp
        next
          case False
          have "loop command (acc @ [b]) (ch\<lparr>in_buffer := bs\<rparr>) = Some y"
            using step open_frame buffered(2) by simp
          then have "CR \<in> set bs \<or>
            (\<exists>k. (\<forall>i<k. arrivals ch i \<noteq> [] \<and> CR \<notin> set (arrivals ch i)) \<and>
                 CR \<in> set (arrivals ch k))"
            using IH [of command "acc @ [b]" "ch\<lparr>in_buffer := bs\<rparr>" y] y False
            by (simp add: endswith_snoc)
          then show ?thesis using buffered(1) by auto
        qed
      next
        case silent
        then show ?thesis using step open_frame y by simp
      next
        case (arrived b bs)
        let ?next = "ch\<lparr>in_buffer := bs, arrivals := (\<lambda>k. arrivals ch (Suc k))\<rparr>"
        show ?thesis
        proof (cases "CR \<in> set (arrivals ch 0)")
          case True
          then have "(\<forall>i<0. arrivals ch i \<noteq> [] \<and> CR \<notin> set (arrivals ch i)) \<and>
                     CR \<in> set (arrivals ch 0)"
            by simp
          then show ?thesis by blast
        next
          case False
          then have b: "b \<noteq> CR" "CR \<notin> set bs"
            using arrived(2) by auto
          have "loop command (acc @ [b]) ?next = Some y"
            using step open_frame arrived(3) by simp
          then have "CR \<in> set (in_buffer ?next) \<or>
            (\<exists>k. (\<forall>i<k. arrivals ?next i \<noteq> [] \<and> CR \<notin> set (arrivals ?next i)) \<and>
                 CR \<in> set (arrivals ?next k))"
            using IH [of command "acc @ [b]" ?next y] y b(1)
            by (simp add: endswith_snoc)
          then obtain k where k: "\<forall>i<k. arrivals ch (Suc i) \<noteq> [] \<and> CR \<notin> set (arrivals ch (Suc i))"
            "CR \<in> set (arrivals ch (Suc k))"
            using b(2) by auto
          have "\<forall>i<Suc k. arrivals ch i \<noteq> [] \<and> CR \<notin> set (arrivals ch i)"
          proof (intro allI impI)
            fix i assume "i < Suc k"
            then show "arrivals ch i \<noteq> [] \<and> CR \<notin> set (arrivals ch i)"
              using k(1) False arrived(2) by (cases i) auto
          qed
          then show ?thesis using k(2) by blast
        qed
      qed
  qed
qed

lemma read_loop_response_reachable:
  assumes "read_loop command acc ch = Some (Inr raw, ch')" and "\<not> endswith acc [CR]"
  shows "CR \<in> set (in_buffer ch) \<or>
         (\<exists>k. (\<forall>i<k. arrivals ch i \<noteq> [] \<and> CR \<notin> set (arrivals ch i)) \<and>
              CR \<in> set (arrivals ch k))"
  using read_loop_reach [OF assms(1)] assms(2) by blast


section \<open>Whole transactions\<close>

lemma communicate_response:
  assumes "\<not> lock self" and "in_waiting (port self) = 0" and "tx_ready (port self)"
    and "list_all (\<lambda>c. c < 128) command"
    and "\<forall>i<k. arrivals (port self) i \<noteq> [] \<and> CR \<notin> set (arrivals (port self) i)"
    and "arrivals (port self) k = pre @ CR # post" and "CR \<notin> set pre"
  shows "communicate command self =
         Some (decode_ascii (concat (map (arrivals (port self)) [0..<k]) @ pre),
               self\<lparr>port := port self
                 \<lparr>in_buffer := post, arrivals := (\<lambda>i. arrivals (port self) (i + Suc k)),
                  written := written (port self) @ [map char_of command @ [CR]]\<rparr>\<rparr>)"
proof -
  let ?ch = "port self\<lparr>written := written (port self) @ [map char_of command @ [CR]]\<rparr>"
  have buf: "in_buffer (port self) = []"
    using assms(2) by (simp add: in_waiting_def)
  have "read_loop command [] ?ch =
        Some (Inr (concat (map (arrivals ?ch) [0..<k]) @ pre @ [CR]),
              ?ch\<lparr>in_buffer := post, arrivals := (\<lambda>i. arrivals ?ch (i + Suc k))\<rparr>)"
    using buf assms(5,6,7) by (intro read_loop_response) simp_all
  then have "communicate_locked command (self\<lparr>lock := True\<rparr>) =
        Some (Inr (concat (map (arrivals (port self)) [0..<k]) @ pre @ [CR]),
              self\<lparr>lock := True, port := ?ch\<lparr>in_buffer := post, arrivals := (\<lambda>i. arrivals ?ch (i + Suc k))\<rparr>\<rparr>)"
    using buf assms(3,4) by (simp add: communicate_locked_read)
  then show ?thesis
    using assms(1)
    by (cases self, cases "port self")
       (simp add: communicate_def lock_threading_lock_def butlast_append)
qed

lemma communicate_silence:
  assumes "\<not> lock self" and "in_waiting (port self) = 0" and "tx_ready (port self)"
    and "list_all (\<lambda>c. c < 128) command"
    and "\<forall>i<k. arrivals (port self) i \<noteq> [] \<and> CR \<notin> set (arrivals (port self) i)"
    and "arrivals (port self) k = []"
  shows "communicate command self =
         Some (Inl (TimeoutError
                 [Lit ''Query: '', Fstr command, Lit '', Error: Captured '', Fbytes [],
                  Lit '' as the last character of '',
                  Fbytes (concat (map (arrivals (port self)) [0..<k])), Lit ''.'']),
               self\<lparr>port := port self
                 \<lparr>arrivals := (\<lambda>i. arrivals (port self) (i + Suc k)),
                  written := written (port self) @ [map char_of command @ [CR]]\<rparr>\<rparr>)"
proof -
  let ?ch = "port self\<lparr>written := written (port self) @ [map char_of command @ [CR]]\<rparr>"
  have buf: "in_buffer (port self) = []"
    using assms(2) by (simp add: in_waiting_def)
  have "read_loop command [] ?ch =
         Some (Inl (TimeoutError
                 [Lit ''Query: '', Fstr command, Lit '', Error: Captured '', Fbytes [],
                  Lit '' as the last character of '',
                  Fbytes (concat (map (arrivals ?ch) [0..<k])), Lit ''.'']),
               ?ch\<lparr>arrivals := (\<lambda>i. arrivals ?ch (i + Suc k))\<rparr>)"
    using buf assms(5,6) by (intro read_loop_silence) simp_all
  then have "communicate_locked command (self\<lparr>lock := True\<rparr>) =
         Some (Inl (TimeoutError
                 [Lit ''Query: '', Fstr command, Lit '', Error: Captured '', Fbytes [],
                  Lit '' as the last character of '',
                  Fbytes (concat (map (arrivals (port self)) [0..<k])), Lit ''.'']),
              self\<lparr>lock := True, port := ?ch\<lparr>arrivals := (\<lambda>i. arrivals ?ch (i + Suc k))\<rparr>\<rparr>)"
    using buf assms(3,4) by (simp add: communicate_locked_read)
  then show ?thesis
    using assms(1)
    by (cases self, cases "port self")
       (simp add: communicate_def lock_threading_lock_def)
qed

lemma communicate_quiet_device:
  assumes "list_all (\<lambda>c. c < 128) command" and "CR \<notin> set pre"
  shows "communicate command (quiet_device [pre @ CR # post]) =
         Some (decode_ascii pre,
               \<lparr>port = \<lparr>in_buffer = post, arrivals = (\<lambda>k. []),
                        written = [map char_of command @ [CR]], tx_ready = True\<rparr>,
                lock = False\<rparr>)"
  using communicate_response [of "quiet_device [pre @ CR # post]" command 0 pre post] assms
  by (simp add: quiet_device_def in_waiting_def)

lemma communicate_success_path:
  assumes "communicate command self = Some (Inr response, self')"
  shows "\<not> lock self" and "in_waiting (port self) = 0" and "tx_ready (port self)"
    and "list_all (\<lambda>c. c < 128) command"
    and "\<exists>raw ch'. read_loop command []
            (port self\<lparr>written := written (port self) @ [map char_of command @ [CR]]\<rparr>) =
          Some (Inr raw, ch')"
proof -
  show l: "\<not> lock self"
    using assms by (auto simp: communicate_def lock_threading_lock_def)
  have body: "\<exists>raw s. communicate_locked command (self\<lparr>lock := True\<rparr>) = Some (Inr raw, s)"
    using assms l
    by (auto simp: communicate_def lock_threading_lock_def
             split: option.splits prod.splits sum.splits)
  then show w: "in_waiting (port self) = 0"
    by (auto simp: communicate_locked_def split: if_splits)
  from body w show a: "list_all (\<lambda>c. c < 128) command"
    by (auto simp: communicate_locked_def encode_ascii_def split: if_splits)
  from body w a show t: "tx_ready (port self)"
    by (auto simp: communicate_locked_def encode_ascii_def port_write_def split: if_splits)
  from body w a t show "\<exists>raw ch'. read_loop command []
            (port self\<lparr>written := written (port self) @ [map char_of command @ [CR]]\<rparr>) =
          Some (Inr raw, ch')"
    by (auto simp: communicate_locked_def encode_ascii_def port_write_def
             split: option.splits prod.splits)
qed

lemma of_char_CR: "(of_char b :: nat) = 13 \<longleftrightarrow> b = CR"
proof -
  have "(of_char CR :: nat) = 13"
    by (simp add: CR_def)
  then show ?thesis
    by (metis of_char_eq_iff)
qed

section \<open>The shape of a status command\<close>

lemma fullmatch_status_iff:
  "fullmatch_status command \<longleftrightarrow>
   (\<exists>x y trailer. command = ustr ''ch:'' @ [x, y] @ trailer \<and>
      97 \<le> x \<and> x \<le> 122 \<and> 97 \<le> y \<and> y \<le> 122 \<and> 10 \<notin> set trailer)"
proof
  assume m: "fullmatch_status command"
  then have len: "5 \<le> length command"
    by (simp add: fullmatch_status_def)
  then obtain a b c x y trailer where cmd: "command = a # b # c # x # y # trailer"
    by (cases command rule: list.exhaust; simp)
       (metis Suc_le_length_iff numeral_eq_Suc pred_numeral_simps(2,3) semiring_norm(26,27))
  with m show "\<exists>x y trailer. command = ustr ''ch:'' @ [x, y] @ trailer \<and>
      97 \<le> x \<and> x \<le> 122 \<and> 97 \<le> y \<and> y \<le> 122 \<and> 10 \<notin> set trailer"
    by (auto simp: fullmatch_status_def ustr_def list_all_iff)
next
  assume "\<exists>x y trailer. command = ustr ''ch:'' @ [x, y] @ trailer \<and>
      97 \<le> x \<and> x \<le> 122 \<and> 97 \<le> y \<and> y \<le> 122 \<and> 10 \<notin> set trailer"
  then show "fullmatch_status command"
    by (auto simp: fullmatch_status_def ustr_def list_all_iff)
qed

section \<open>Stripping\<close>

lemma rstrip_split:
  "xs = rev (dropWhile P (rev xs)) @ rev (takeWhile P (rev xs))"
proof -
  have "rev (takeWhile P (rev xs) @ dropWhile P (rev xs)) = xs"
    by (simp only: takeWhile_dropWhile_id rev_rev_ident)
  then show ?thesis
    by (simp only: rev_append)
qed

lemma strip_decompose:
  "\<exists>lead trail. s = lead @ strip s @ trail \<and> list_all isspace lead \<and> list_all isspace trail"
proof (intro exI conjI)
  let ?ys = "dropWhile isspace s"
  show "s = takeWhile isspace s @ strip s @ rev (takeWhile isspace (rev ?ys))"
  proof -
    have "?ys = strip s @ rev (takeWhile isspace (rev ?ys))"
      unfolding strip_def by (rule rstrip_split)
    moreover have "s = takeWhile isspace s @ ?ys"
      by simp
    ultimately show ?thesis by metis
  qed
  show "list_all isspace (takeWhile isspace s)"
    by (auto simp: list_all_iff dest: set_takeWhileD)
  show "list_all isspace (rev (takeWhile isspace (rev ?ys)))"
    by (auto simp: list_all_iff dest: set_takeWhileD)
qed

lemma strip_ends:
  assumes "strip s \<noteq> []"
  shows "\<not> isspace (hd (strip s))" and "\<not> isspace (last (strip s))"
proof -
  let ?ys = "dropWhile isspace s"
  let ?zs = "dropWhile isspace (rev ?ys)"
  have zs: "?zs \<noteq> []"
    using assms by (simp add: strip_def)
  then show "\<not> isspace (last (strip s))"
    using hd_dropWhile [of isspace "rev ?ys"] by (simp add: strip_def last_rev)
  have ys: "?ys = strip s @ rev (takeWhile isspace (rev ?ys))"
    unfolding strip_def by (rule rstrip_split)
  have "?ys \<noteq> []"
  proof
    assume "?ys = []"
    with ys have "strip s = []"
      by (metis append_is_Nil_conv)
    then show False using assms by simp
  qed
  then have "\<not> isspace (hd ?ys)"
    by (rule hd_dropWhile)
  moreover have "hd ?ys = hd (strip s)"
    using ys assms by (metis hd_append2)
  ultimately show "\<not> isspace (hd (strip s))"
    by simp
qed

section \<open>Action commands\<close>

text \<open>
  How \<open>issue_action_command\<close> sorts a returned response by its prefix: \<^verbatim>\<open>ok\<close> gives
  the status that \<open>from_hex_string\<close> makes of the stripped rest; \<^verbatim>\<open>er\<close>, with a
  stripped rest that \<^verbatim>\<open>int\<close> reads as a base-16 integer, raises the Communication error
  carrying that integer; a response with neither prefix raises the Unexpected-Response
  error that quotes it.  The examples are the responses \<^verbatim>\<open>ok 05\<close>, \<^verbatim>\<open>er 1A\<close> and
  \<^verbatim>\<open>xyz\<close>.
\<close>

lemma issue_action_command_classification:
  assumes "communicate command self = Some (Inr response, self')"
  shows "(startswith response (ustr ''ok'') \<longrightarrow>
            issue_action_command from_hex_string command self =
              Some (from_hex_string (strip (drop 2 response)), self')) \<and>
         (startswith response (ustr ''er'') \<longrightarrow>
            (\<forall>code. int16 (strip (drop 2 response)) = Inr code \<longrightarrow>
               issue_action_command from_hex_string command self =
                 Some (Inl (from_error_code code), self'))) \<and>
         (\<not> startswith response (ustr ''ok'') \<and> \<not> startswith response (ustr ''er'') \<longrightarrow>
            issue_action_command from_hex_string command self =
              Some (Inl (UnexpectedResponse
                   [Lit (''Expected response like '' @ apostrophe @ ''ok XX'' @ apostrophe @
                         '' or '' @ apostrophe @ ''er XX'' @ apostrophe @ '', got '' @ apostrophe),
                    Fstr response, Lit apostrophe]),
               self'))"
proof (intro conjI impI allI)
  assume "startswith response (ustr ''ok'')"
  then show "issue_action_command from_hex_string command self =
              Some (from_hex_string (strip (drop 2 response)), self')"
    using assms
    by (simp add: issue_action_command_def check_prefix_and_strip_def ustr_def numeral_2_eq_2)
next
  fix code
  assume er: "startswith response (ustr ''er'')"
    and code: "int16 (strip (drop 2 response)) = Inr code"
  have "\<not> startswith response (ustr ''ok'')"
    using er by (auto simp: startswith_def ustr_def prefix_def)
  then show "issue_action_command from_hex_string command self =
                 Some (Inl (from_error_code code), self')"
    using assms er code
    by (simp add: issue_action_command_def check_prefix_and_strip_def ustr_def numeral_2_eq_2)
next
  assume "\<not> startswith response (ustr ''ok'') \<and> \<not> startswith response (ustr ''er'')"
  then show "issue_action_command from_hex_string command self =
              Some (Inl (UnexpectedResponse
                   [Lit (''Expected response like '' @ apostrophe @ ''ok XX'' @ apostrophe @
                         '' or '' @ apostrophe @ ''er XX'' @ apostrophe @ '', got '' @ apostrophe),
                    Fstr response, Lit apostrophe]),
               self')"
    using assms by (simp add: issue_action_command_def)
qed

lemma issue_action_command_classification_examples:
  "issue_action_command Inr (ustr ''ll:sm'') (quiet_device [''ok 05'' @ [CR]]) =
     Some (Inr (ustr ''05''),
           \<lparr>port = \<lparr>in_buffer = [], arrivals = (\<lambda>k. []),
                    written = [''ll:sm'' @ [CR]], tx_ready = True\<rparr>, lock = False\<rparr>) \<and>
   issue_action_command Inr (ustr ''ll:sm'') (quiet_device [''er 1A'' @ [CR]]) =
     Some (Inl (DeviceError 0x1A) :: exn + pystr,
           \<lparr>port = \<lparr>in_buffer = [], arrivals = (\<lambda>k. []),
                    written = [''ll:sm'' @ [CR]], tx_ready = True\<rparr>, lock = False\<rparr>) \<and>
   issue_action_command Inr (ustr ''ll:sm'') (quiet_device [''xyz'' @ [CR]]) =
     Some (Inl (UnexpectedResponse
                 [Lit (''Expected response like '' @ apostrophe @ ''ok XX'' @ apostrophe @
                       '' or '' @ apostrophe @ ''er XX'' @ apostrophe @ '', got '' @ apostrophe),
                  Fstr (ustr ''xyz''), Lit apostrophe]) :: exn + pystr,
           \<lparr>port = \<lparr>in_buffer = [], arrivals = (\<lambda>k. []),
                    written = [''ll:sm'' @ [CR]], tx_ready = True\<rparr>, lock = False\<rparr>)"
proof -
  have c: "communicate (ustr ''ll:sm'') (quiet_device [pre @ [CR]]) =
        Some (decode_ascii pre,
           \<lparr>port = \<lparr>in_buffer = [], arrivals = (\<lambda>k. []),
                    written = [''ll:sm'' @ [CR]], tx_ready = True\<rparr>, lock = False\<rparr>)"
    if "CR \<notin> set pre" for pre
    using communicate_quiet_device [of "ustr ''ll:sm''" pre "[]"] that
    by (simp add: ustr_ascii encode_ustr)
  have ok: "communicate (ustr ''ll:sm'') (quiet_device [''ok 05'' @ [CR]]) =
        Some (Inr (ustr ''ok 05''),
           \<lparr>port = \<lparr>in_buffer = [], arrivals = (\<lambda>k. []),
                    written = [''ll:sm'' @ [CR]], tx_ready = True\<rparr>, lock = False\<rparr>)"
    using c [of "''ok 05''"] by (simp add: decode_ascii_def CR_def)
  have er: "communicate (ustr ''ll:sm'') (quiet_device [''er 1A'' @ [CR]]) =
        Some (Inr (ustr ''er 1A''),
           \<lparr>port = \<lparr>in_buffer = [], arrivals = (\<lambda>k. []),
                    written = [''ll:sm'' @ [CR]], tx_ready = True\<rparr>, lock = False\<rparr>)"
    using c [of "''er 1A''"] by (simp add: decode_ascii_def CR_def)
  have xyz: "communicate (ustr ''ll:sm'') (quiet_device [''xyz'' @ [CR]]) =
        Some (Inr (ustr ''xyz''),
           \<lparr>port = \<lparr>in_buffer = [], arrivals = (\<lambda>k. []),
                    written = [''ll:sm'' @ [CR]], tx_ready = True\<rparr>, lock = False\<rparr>)"
    using c [of "''xyz''"] by (simp add: decode_ascii_def CR_def)
  have 1: "startswith (ustr ''ok 05'') (ustr ''ok'')" "strip (drop 2 (ustr ''ok 05'')) = ustr ''05''"
    by (simp_all add: startswith_def ustr_def strip_def isspace_def)
  have 2: "startswith (ustr ''er 1A'') (ustr ''er'')" "int16 (strip (drop 2 (ustr ''er 1A''))) = Inr 0x1A"
    by (simp_all add: startswith_def ustr_def strip_def isspace_def int16_def c_isspace_def
                      hex_numeral_def hex_digit_def)
  have 3: "\<not> startswith (ustr ''xyz'') (ustr ''ok'') \<and> \<not> startswith (ustr ''xyz'') (ustr ''er'')"
    by (simp add: startswith_def ustr_def)
  show ?thesis
    using issue_action_command_classification [OF ok, of Inr] 1
      issue_action_command_classification [OF er, of "Inr :: pystr \<Rightarrow> exn + pystr"] 2
      issue_action_command_classification [OF xyz, of "Inr :: pystr \<Rightarrow> exn + pystr"] 3
    by (simp add: from_error_code_def)
qed

section \<open>The claims\<close>

text \<open>
  C1 (framing round trip).  The lock is free, nothing is buffered, the write completes and
  the command is ASCII (with or without a carriage return in it).  Every read yields a
  byte: the first \<open>k\<close> waits bring bytes other than the terminator, and the next one brings
  \<open>pre\<close>, then the first terminator.  Then \<open>communicate\<close> returns, with the bytes read
  before that terminator decoded as ASCII (the decoding error, where they are not ASCII),
  and the channel has received one more write: the encoded command followed by one
  carriage return.
\<close>

theorem communicate_framing:
  assumes "\<not> lock self" and "in_waiting (port self) = 0" and "tx_ready (port self)"
    and "list_all (\<lambda>c. c < 128) command"
    and "\<forall>i<k. arrivals (port self) i \<noteq> [] \<and> CR \<notin> set (arrivals (port self) i)"
    and "arrivals (port self) k = pre @ CR # post" and "CR \<notin> set pre"
  shows "map_option fst (communicate command self) =
           Some (decode_ascii (concat (map (arrivals (port self)) [0..<k]) @ pre)) \<and>
         map_option (written \<circ> port \<circ> snd) (communicate command self) =
           Some (written (port self) @ [map char_of command @ [CR]])"
  using communicate_response [OF assms] by simp

theorem communicate_framing_witness:
  "map_option fst
     (communicate (ustr ''ll:sm'') (quiet_device [''ok '', ''05'' @ CR # ''zz''])) =
     Some (Inr (ustr ''ok 05'')) \<and>
   map_option (written \<circ> port \<circ> snd)
     (communicate (ustr ''ll:sm'') (quiet_device [''ok '', ''05'' @ CR # ''zz''])) =
     Some [''ll:sm'' @ [CR]]"
  using communicate_framing
    [of "quiet_device [''ok '', ''05'' @ CR # ''zz'']" "ustr ''ll:sm''" 1 "''05''" "''zz''"]
  by (simp add: quiet_device_def in_waiting_def CR_def decode_ascii_def ustr_ascii encode_ustr)

text \<open>
  C2 (action commands).  The claim: a response that starts with \<^verbatim>\<open>er\<close> raises a
  Communication error carrying the rest read as a base-16 integer, and the outcomes are
  three: a status, a Communication error, an Unexpected-Response error.  The docstring of
  \<^verbatim>\<open>issue_action_command\<close> says the same: \<^verbatim>\<open>SerialCommunicationError\<close> if the response
  was \<^verbatim>\<open>er XX\<close>, \<^verbatim>\<open>UnexpectedResponse\<close> if it matched neither \<^verbatim>\<open>ok XX\<close> nor
  \<^verbatim>\<open>er XX\<close>.  On the response \<^verbatim>\<open>er 1G\<close> the code raises neither of them: the rest is
  handed to \<^verbatim>\<open>int\<close> unchecked, and its \<^verbatim>\<open>ValueError\<close> leaves the function.
\<close>

theorem issue_action_command_unparsed_code:
  "map_option fst (communicate (ustr ''ll:sm'') (quiet_device [''er 1G'' @ [CR]])) =
     Some (Inr (ustr ''er 1G'')) \<and>
   startswith (ustr ''er 1G'') (ustr ''er'') \<and>
   map_option fst (issue_action_command Inr (ustr ''ll:sm'') (quiet_device [''er 1G'' @ [CR]])) =
     Some (Inl ValueError :: exn + pystr)"
proof -
  have c: "communicate (ustr ''ll:sm'') (quiet_device [''er 1G'' @ [CR]]) =
        Some (Inr (ustr ''er 1G''),
           \<lparr>port = \<lparr>in_buffer = [], arrivals = (\<lambda>k. []),
                    written = [''ll:sm'' @ [CR]], tx_ready = True\<rparr>, lock = False\<rparr>)"
    using communicate_quiet_device [of "ustr ''ll:sm''" "''er 1G''" "[]"]
    by (simp add: ustr_ascii encode_ustr decode_ascii_def CR_def)
  have s: "startswith (ustr ''er 1G'') (ustr ''er'')"
    by (simp add: startswith_def ustr_def)
  have "issue_action_command Inr (ustr ''ll:sm'') (quiet_device [''er 1G'' @ [CR]]) =
     Some (Inl ValueError :: exn + pystr,
           \<lparr>port = \<lparr>in_buffer = [], arrivals = (\<lambda>k. []),
                    written = [''ll:sm'' @ [CR]], tx_ready = True\<rparr>, lock = False\<rparr>)"
    unfolding issue_action_command_def c
    by (simp add: check_prefix_and_strip_def startswith_def ustr_def strip_def isspace_def
                  int16_def c_isspace_def hex_numeral_def hex_digit_def)
  with c s show ?thesis by simp
qed

text \<open>
  C3 (stale buffer).  With the lock free and unread bytes reported by the channel,
  \<open>communicate\<close> raises the Communication error about unread bytes and leaves the whole
  engine as it was: nothing is written, nothing is taken from the input buffer, and the
  lock is free again.
\<close>

theorem communicate_stale_buffer:
  assumes "\<not> lock self" and "in_waiting (port self) \<noteq> 0"
  shows "communicate command self =
         Some (Inl (SerialCommunicationError
                 [Lit ''There were unread bytes in the input buffer'']), self)"
  using assms
  by (cases self) (simp add: communicate_def lock_threading_lock_def communicate_locked_def)

theorem communicate_stale_buffer_witness:
  "communicate (ustr ''ch:bs'')
     \<lparr>port = \<lparr>in_buffer = ''x'', arrivals = (\<lambda>k. []), written = [], tx_ready = True\<rparr>,
      lock = False\<rparr> =
   Some (Inl (SerialCommunicationError [Lit ''There were unread bytes in the input buffer'']),
     \<lparr>port = \<lparr>in_buffer = ''x'', arrivals = (\<lambda>k. []), written = [], tx_ready = True\<rparr>,
      lock = False\<rparr>)"
  using communicate_stale_buffer
    [of "\<lparr>port = \<lparr>in_buffer = ''x'', arrivals = (\<lambda>k. []), written = [], tx_ready = True\<rparr>,
          lock = False\<rparr>" "ustr ''ch:bs''"]
  by (simp add: in_waiting_def)

text \<open>
  C4 (read timeout).  The transaction has reached the read loop, the first \<open>k\<close> waits
  bring bytes other than the terminator and the next wait brings nothing.  Then
  \<open>communicate\<close> raises the Timeout error whose message holds the command and the bytes
  accumulated so far (none when \<open>k = 0\<close>); no response is returned.
\<close>

theorem communicate_read_timeout:
  assumes "\<not> lock self" and "in_waiting (port self) = 0" and "tx_ready (port self)"
    and "list_all (\<lambda>c. c < 128) command"
    and "\<forall>i<k. arrivals (port self) i \<noteq> [] \<and> CR \<notin> set (arrivals (port self) i)"
    and "arrivals (port self) k = []"
  shows "map_option fst (communicate command self) =
         Some (Inl (TimeoutError
                 [Lit ''Query: '', Fstr command, Lit '', Error: Captured '', Fbytes [],
                  Lit '' as the last character of '',
                  Fbytes (concat (map (arrivals (port self)) [0..<k])), Lit ''.'']))"
  using communicate_silence [OF assms] by simp

theorem communicate_read_timeout_witness:
  "map_option fst (communicate (ustr ''ll:sm'') (quiet_device [''ok '', ''0''])) =
   Some (Inl (TimeoutError
           [Lit ''Query: '', Fstr (ustr ''ll:sm''), Lit '', Error: Captured '', Fbytes [],
            Lit '' as the last character of '', Fbytes ''ok 0'', Lit ''.'']))"
  using communicate_read_timeout [of "quiet_device [''ok '', ''0'']" "ustr ''ll:sm''" 2]
  by (simp add: quiet_device_def in_waiting_def ustr_ascii CR_def less_Suc_eq numeral_2_eq_2)

text \<open>
  C5 (status commands), as stated: a command that is \<^verbatim>\<open>ch:\<close>, two lowercase letters and
  an arbitrary trailer is passed to \<open>communicate\<close>.  The command \<^verbatim>\<open>ch:bs\<close> followed by a
  line feed has that shape, and the device would answer it, but it is rejected with the
  Invalid-Command error and the channel is not touched.
\<close>

theorem issue_status_command_newline_counterexample:
  "status_shape_spec (ustr ''ch:bs'' @ [10]) \<and>
   issue_status_command (ustr ''ch:bs'' @ [10]) (quiet_device [''bs 01'' @ [CR]]) =
     Some (Inl (InvalidCommand
             [Lit (''Expected command like '' @ apostrophe @ ''ch:xx'' @ apostrophe @ '' or '' @
                   apostrophe @ ''ch:xx ...'' @ apostrophe @ '', got '' @ apostrophe),
              Fstr (ustr ''ch:bs'' @ [10]), Lit apostrophe]),
           quiet_device [''bs 01'' @ [CR]]) \<and>
   map_option fst (communicate (ustr ''ch:bs'' @ [10]) (quiet_device [''bs 01'' @ [CR]])) =
     Some (Inr (ustr ''bs 01''))"
proof (intro conjI)
  show "status_shape_spec (ustr ''ch:bs'' @ [10])"
    by (simp add: status_shape_spec_def ustr_def)
  show "issue_status_command (ustr ''ch:bs'' @ [10]) (quiet_device [''bs 01'' @ [CR]]) =
     Some (Inl (InvalidCommand
             [Lit (''Expected command like '' @ apostrophe @ ''ch:xx'' @ apostrophe @ '' or '' @
                   apostrophe @ ''ch:xx ...'' @ apostrophe @ '', got '' @ apostrophe),
              Fstr (ustr ''ch:bs'' @ [10]), Lit apostrophe]),
           quiet_device [''bs 01'' @ [CR]])"
    by (simp add: issue_status_command_def fullmatch_status_def ustr_def)
  have "ustr ''ch:bs'' @ [10] = ustr (''ch:bs'' @ [CHR 0x0A])"
    by (simp add: ustr_def)
  then show "map_option fst
       (communicate (ustr ''ch:bs'' @ [10]) (quiet_device [''bs 01'' @ [CR]])) =
     Some (Inr (ustr ''bs 01''))"
    using communicate_quiet_device [of "ustr (''ch:bs'' @ [CHR 0x0A])" "''bs 01''" "[]"]
    by (simp add: ustr_ascii decode_ascii_def CR_def)
qed

text \<open>
  C5, amended.  A command is rejected with the Invalid-Command error, the engine left as it
  was, unless it is \<^verbatim>\<open>ch:\<close>, two letters between \<^verbatim>\<open>a\<close> and \<^verbatim>\<open>z\<close>, and a trailer
  without a line feed.  A command of that shape is passed to \<open>communicate\<close>, and the
  response is checked against, and stripped of, the two letters at its places 4 and 5.
\<close>

theorem issue_status_command_shape:
  "((\<nexists>x y trailer. command = ustr ''ch:'' @ [x, y] @ trailer \<and>
        97 \<le> x \<and> x \<le> 122 \<and> 97 \<le> y \<and> y \<le> 122 \<and> 10 \<notin> set trailer) \<longrightarrow>
      issue_status_command command self =
        Some (Inl (InvalidCommand
                [Lit (''Expected command like '' @ apostrophe @ ''ch:xx'' @ apostrophe @
                      '' or '' @ apostrophe @ ''ch:xx ...'' @ apostrophe @ '', got '' @
                      apostrophe),
                 Fstr command, Lit apostrophe]), self)) \<and>
   (\<forall>x y trailer.
      command = ustr ''ch:'' @ [x, y] @ trailer \<and>
      97 \<le> x \<and> x \<le> 122 \<and> 97 \<le> y \<and> y \<le> 122 \<and> 10 \<notin> set trailer \<longrightarrow>
      issue_status_command command self =
        (case communicate command self of
           None \<Rightarrow> None
         | Some (Inl e, self') \<Rightarrow> Some (Inl e, self')
         | Some (Inr response, self') \<Rightarrow> Some (check_prefix_and_strip response [x, y], self')))"
proof (intro conjI impI allI)
  assume "\<nexists>x y trailer. command = ustr ''ch:'' @ [x, y] @ trailer \<and>
        97 \<le> x \<and> x \<le> 122 \<and> 97 \<le> y \<and> y \<le> 122 \<and> 10 \<notin> set trailer"
  then have "\<not> fullmatch_status command"
    by (simp only: fullmatch_status_iff not_False_eq_True)
  then show "issue_status_command command self =
        Some (Inl (InvalidCommand
                [Lit (''Expected command like '' @ apostrophe @ ''ch:xx'' @ apostrophe @
                      '' or '' @ apostrophe @ ''ch:xx ...'' @ apostrophe @ '', got '' @
                      apostrophe),
                 Fstr command, Lit apostrophe]), self)"
    by (simp add: issue_status_command_def)
next
  fix x y trailer
  assume a: "command = ustr ''ch:'' @ [x, y] @ trailer \<and>
      97 \<le> x \<and> x \<le> 122 \<and> 97 \<le> y \<and> y \<le> 122 \<and> 10 \<notin> set trailer"
  then have "fullmatch_status command"
    unfolding fullmatch_status_iff by blast
  moreover have "take 2 (drop 3 command) = [x, y]"
    using a by (simp add: ustr_def)
  ultimately show "issue_status_command command self =
        (case communicate command self of
           None \<Rightarrow> None
         | Some (Inl e, self') \<Rightarrow> Some (Inl e, self')
         | Some (Inr response, self') \<Rightarrow> Some (check_prefix_and_strip response [x, y], self'))"
    by (simp add: issue_status_command_def split: option.splits prod.splits sum.splits)
qed

theorem issue_status_command_shape_witness:
  "issue_status_command (ustr ''ch:bs'') (quiet_device [''bs 01'' @ [CR]]) =
     Some (Inr (ustr ''01''),
           \<lparr>port = \<lparr>in_buffer = [], arrivals = (\<lambda>k. []),
                    written = [''ch:bs'' @ [CR]], tx_ready = True\<rparr>, lock = False\<rparr>) \<and>
   issue_status_command (ustr ''chbs'') (quiet_device [''bs 01'' @ [CR]]) =
     Some (Inl (InvalidCommand
                [Lit (''Expected command like '' @ apostrophe @ ''ch:xx'' @ apostrophe @
                      '' or '' @ apostrophe @ ''ch:xx ...'' @ apostrophe @ '', got '' @
                      apostrophe),
                 Fstr (ustr ''chbs''), Lit apostrophe]), quiet_device [''bs 01'' @ [CR]])"
proof -
  have c: "communicate (ustr ''ch:bs'') (quiet_device [''bs 01'' @ [CR]]) =
        Some (Inr (ustr ''bs 01''),
           \<lparr>port = \<lparr>in_buffer = [], arrivals = (\<lambda>k. []),
                    written = [''ch:bs'' @ [CR]], tx_ready = True\<rparr>, lock = False\<rparr>)"
    using communicate_quiet_device [of "ustr ''ch:bs''" "''bs 01''" "[]"]
    by (simp add: ustr_ascii encode_ustr decode_ascii_def CR_def)
  have s: "check_prefix_and_strip (ustr ''bs 01'') [98, 115] = Inr (ustr ''01'')"
    by (simp add: check_prefix_and_strip_def startswith_def ustr_def strip_def isspace_def)
  have n: "\<nexists>x y trailer. ustr ''chbs'' = ustr ''ch:'' @ [x, y] @ trailer \<and>
        97 \<le> x \<and> x \<le> 122 \<and> 97 \<le> y \<and> y \<le> 122 \<and> 10 \<notin> set trailer"
    by (simp add: ustr_def)
  have y: "ustr ''ch:bs'' = ustr ''ch:'' @ [98, 115] @ [] \<and>
        97 \<le> (98::nat) \<and> (98::nat) \<le> 122 \<and> 97 \<le> (115::nat) \<and> (115::nat) \<le> 122 \<and> 10 \<notin> set ([]::nat list)"
    by (simp add: ustr_def)
  from issue_status_command_shape [of "ustr ''ch:bs''" "quiet_device [''bs 01'' @ [CR]]"] y
  have "issue_status_command (ustr ''ch:bs'') (quiet_device [''bs 01'' @ [CR]]) =
        (case communicate (ustr ''ch:bs'') (quiet_device [''bs 01'' @ [CR]]) of
           None \<Rightarrow> None
         | Some (Inl e, self') \<Rightarrow> Some (Inl e, self')
         | Some (Inr response, self') \<Rightarrow> Some (check_prefix_and_strip response [98, 115], self'))"
    by blast
  then have "issue_status_command (ustr ''ch:bs'') (quiet_device [''bs 01'' @ [CR]]) =
     Some (Inr (ustr ''01''),
           \<lparr>port = \<lparr>in_buffer = [], arrivals = (\<lambda>k. []),
                    written = [''ch:bs'' @ [CR]], tx_ready = True\<rparr>, lock = False\<rparr>)"
    by (simp only: c s option.case prod.case sum.case)
  moreover from issue_status_command_shape [of "ustr ''chbs''" "quiet_device [''bs 01'' @ [CR]]"] n
  have "issue_status_command (ustr ''chbs'') (quiet_device [''bs 01'' @ [CR]]) =
     Some (Inl (InvalidCommand
                [Lit (''Expected command like '' @ apostrophe @ ''ch:xx'' @ apostrophe @
                      '' or '' @ apostrophe @ ''ch:xx ...'' @ apostrophe @ '', got '' @
                      apostrophe),
                 Fstr (ustr ''chbs''), Lit apostrophe]), quiet_device [''bs 01'' @ [CR]])"
    by blast
  ultimately show ?thesis
    by (rule conjI)
qed

text \<open>
  C6 (prefix check).  \<open>check_prefix_and_strip\<close> is a function of its two arguments alone
  (it takes and returns no engine state).  When the response starts with the prefix, the
  result is the rest of the response without the whitespace on both sides: the rest is
  whitespace, then the result, then whitespace, and the result neither begins nor ends with
  whitespace.  Otherwise the Unexpected-Response error is raised, and its message holds
  both the expected prefix and the response.
\<close>

theorem check_prefix_and_strip_total:
  "(startswith response expected_prefix \<longrightarrow>
      (\<exists>lead out trail.
         response = expected_prefix @ lead @ out @ trail \<and>
         list_all isspace lead \<and> list_all isspace trail \<and>
         (out = [] \<or> \<not> isspace (hd out) \<and> \<not> isspace (last out)) \<and>
         check_prefix_and_strip response expected_prefix = Inr out)) \<and>
   (\<not> startswith response expected_prefix \<longrightarrow>
      check_prefix_and_strip response expected_prefix =
        Inl (UnexpectedResponse
          [Lit (''Expected response prefix '' @ apostrophe), Fstr expected_prefix,
           Lit (apostrophe @ '', got response '' @ apostrophe), Fstr response,
           Lit apostrophe]))"
proof (intro conjI impI)
  assume p: "startswith response expected_prefix"
  let ?rest = "drop (length expected_prefix) response"
  have r: "response = expected_prefix @ ?rest"
    using p by (auto simp: startswith_def prefix_def)
  obtain lead trail where d: "?rest = lead @ strip ?rest @ trail"
    "list_all isspace lead" "list_all isspace trail"
    using strip_decompose by blast
  have "response = expected_prefix @ lead @ strip ?rest @ trail"
    using r d(1) by metis
  moreover have "strip ?rest = [] \<or> \<not> isspace (hd (strip ?rest)) \<and> \<not> isspace (last (strip ?rest))"
    using strip_ends by blast
  moreover have "check_prefix_and_strip response expected_prefix = Inr (strip ?rest)"
    using p by (simp add: check_prefix_and_strip_def)
  ultimately show "\<exists>lead out trail.
         response = expected_prefix @ lead @ out @ trail \<and>
         list_all isspace lead \<and> list_all isspace trail \<and>
         (out = [] \<or> \<not> isspace (hd out) \<and> \<not> isspace (last out)) \<and>
         check_prefix_and_strip response expected_prefix = Inr out"
    using d(2,3) by blast
next
  assume "\<not> startswith response expected_prefix"
  then show "check_prefix_and_strip response expected_prefix =
        Inl (UnexpectedResponse
          [Lit (''Expected response prefix '' @ apostrophe), Fstr expected_prefix,
           Lit (apostrophe @ '', got response '' @ apostrophe), Fstr response,
           Lit apostrophe])"
    by (simp add: check_prefix_and_strip_def)
qed

theorem check_prefix_and_strip_total_witness:
  "check_prefix_and_strip (ustr ''bs  01 '') (ustr ''bs'') = Inr (ustr ''01'') \<and>
   check_prefix_and_strip (ustr ''er 05'') (ustr ''ok'') =
     Inl (UnexpectedResponse
          [Lit (''Expected response prefix '' @ apostrophe), Fstr (ustr ''ok''),
           Lit (apostrophe @ '', got response '' @ apostrophe), Fstr (ustr ''er 05''),
           Lit apostrophe])"
  using check_prefix_and_strip_total [of "ustr ''bs  01 ''" "ustr ''bs''"]
    check_prefix_and_strip_total [of "ustr ''er 05''" "ustr ''ok''"]
  by (simp add: check_prefix_and_strip_def startswith_def ustr_def strip_def isspace_def)

text \<open>
  C7 (lock release).  When the lock was free at the call (no lock timeout), every way out
  of \<open>communicate\<close>, with a response or with any error, leaves the lock free.  The
  instances below are a response, a decoding failure, a read timeout, a write failure and
  the stale-buffer error.
\<close>

theorem communicate_releases_lock:
  assumes "\<not> lock self" and "communicate command self = Some (r, self')"
  shows "\<not> lock self'"
  using assms
  by (auto simp: communicate_def lock_threading_lock_def
           split: option.splits sum.splits prod.splits)

theorem communicate_releases_lock_witness:
  "map_option (\<lambda>(r, self'). (r, lock self'))
     (communicate (ustr ''ch:bs'') (quiet_device [''bs 01'' @ [CR]])) =
     Some (Inr (ustr ''bs 01''), False) \<and>
   map_option (\<lambda>(r, self'). (r, lock self'))
     (communicate (ustr ''ch:bs'') (quiet_device [[CHR 0xE9, CR]])) =
     Some (Inl UnicodeDecodeError, False) \<and>
   map_option (\<lambda>(r, self'). (r, lock self'))
     (communicate (ustr ''ch:bs'') (quiet_device [''bs 0''])) =
     Some (Inl (TimeoutError
             [Lit ''Query: '', Fstr (ustr ''ch:bs''), Lit '', Error: Captured '', Fbytes [],
              Lit '' as the last character of '', Fbytes ''bs 0'', Lit ''.'']), False) \<and>
   map_option (\<lambda>(r, self'). (r, lock self'))
     (communicate (ustr ''ch:bs'')
        ((quiet_device [])\<lparr>port := (port (quiet_device []))\<lparr>tx_ready := False\<rparr>\<rparr>)) =
     Some (Inl SerialTimeoutException, False) \<and>
   map_option (\<lambda>(r, self'). (r, lock self'))
     (communicate (ustr ''ch:bs'')
        ((quiet_device [])\<lparr>port := (port (quiet_device []))\<lparr>in_buffer := ''x''\<rparr>\<rparr>)) =
     Some (Inl (SerialCommunicationError
             [Lit ''There were unread bytes in the input buffer'']), False)"
proof -
  have free: "\<not> lock (quiet_device chunks)" for chunks
    by (simp add: quiet_device_def)
  have free': "\<not> lock ((quiet_device chunks)\<lparr>port := ch\<rparr>)" for chunks ch
    by (simp add: quiet_device_def)
  have a: "\<exists>self'. communicate (ustr ''ch:bs'') (quiet_device [''bs 01'' @ [CR]]) =
             Some (Inr (ustr ''bs 01''), self')"
    using communicate_quiet_device [of "ustr ''ch:bs''" "''bs 01''" "[]"]
    by (simp add: ustr_ascii decode_ascii_def CR_def)
  have b: "\<exists>self'. communicate (ustr ''ch:bs'') (quiet_device [[CHR 0xE9, CR]]) =
             Some (Inl UnicodeDecodeError, self')"
    using communicate_quiet_device [of "ustr ''ch:bs''" "[CHR 0xE9]" "[]"]
    by (simp add: ustr_ascii decode_ascii_def CR_def)
  have c: "\<exists>self'. communicate (ustr ''ch:bs'') (quiet_device [''bs 0'']) =
             Some (Inl (TimeoutError
               [Lit ''Query: '', Fstr (ustr ''ch:bs''), Lit '', Error: Captured '', Fbytes [],
                Lit '' as the last character of '', Fbytes ''bs 0'', Lit ''.'']), self')"
    using communicate_silence [of "quiet_device [''bs 0'']" "ustr ''ch:bs''" 1]
    by (simp add: quiet_device_def in_waiting_def ustr_ascii CR_def)
  have d: "\<exists>self'. communicate (ustr ''ch:bs'')
        ((quiet_device [])\<lparr>port := (port (quiet_device []))\<lparr>tx_ready := False\<rparr>\<rparr>) =
             Some (Inl SerialTimeoutException, self')"
    by (simp add: communicate_def lock_threading_lock_def communicate_locked_def
          quiet_device_def in_waiting_def encode_ascii_def ustr_ascii port_write_def)
  have e: "\<exists>self'. communicate (ustr ''ch:bs'')
        ((quiet_device [])\<lparr>port := (port (quiet_device []))\<lparr>in_buffer := ''x''\<rparr>\<rparr>) =
             Some (Inl (SerialCommunicationError
               [Lit ''There were unread bytes in the input buffer'']), self')"
    by (simp add: communicate_def lock_threading_lock_def communicate_locked_def
          quiet_device_def in_waiting_def)
  from a b c d e show ?thesis
    using communicate_releases_lock [OF free] communicate_releases_lock [OF free']
    by (elim exE) simp
qed

text \<open>
  C8 (error code that is no numeral).  When the response starts with \<^verbatim>\<open>er\<close> and its
  stripped rest is not a base-16 numeral, \<open>issue_action_command\<close> raises the
  \<^verbatim>\<open>ValueError\<close> of \<^verbatim>\<open>int\<close>, which is neither a Communication error nor an
  Unexpected-Response error.  The response \<^verbatim>\<open>er zz\<close> is such a case.
\<close>

theorem issue_action_command_value_error:
  assumes "communicate command self = Some (Inr response, self')"
    and "startswith response (ustr ''er'')"
    and "int16 (strip (drop 2 response)) = Inl ValueError"
  shows "issue_action_command from_hex_string command self = Some (Inl ValueError, self') \<and>
         (\<forall>code. ValueError \<noteq> from_error_code code) \<and>
         (\<forall>m. ValueError \<noteq> SerialCommunicationError m) \<and>
         (\<forall>m. ValueError \<noteq> UnexpectedResponse m)"
proof -
  have "\<not> startswith response (ustr ''ok'')"
    using assms(2) by (auto simp: startswith_def ustr_def prefix_def)
  then have "issue_action_command from_hex_string command self = Some (Inl ValueError, self')"
    using assms
    by (simp add: issue_action_command_def check_prefix_and_strip_def ustr_def numeral_2_eq_2)
  then show ?thesis
    by (simp add: from_error_code_def)
qed

theorem issue_action_command_value_error_witness:
  "issue_action_command Inr (ustr ''ll:sm'') (quiet_device [''er zz'' @ [CR]]) =
     Some (Inl ValueError :: exn + pystr,
           \<lparr>port = \<lparr>in_buffer = [], arrivals = (\<lambda>k. []),
                    written = [''ll:sm'' @ [CR]], tx_ready = True\<rparr>, lock = False\<rparr>)"
proof -
  have c: "communicate (ustr ''ll:sm'') (quiet_device [''er zz'' @ [CR]]) =
        Some (Inr (ustr ''er zz''),
           \<lparr>port = \<lparr>in_buffer = [], arrivals = (\<lambda>k. []),
                    written = [''ll:sm'' @ [CR]], tx_ready = True\<rparr>, lock = False\<rparr>)"
    using communicate_quiet_device [of "ustr ''ll:sm''" "''er zz''" "[]"]
    by (simp add: ustr_ascii encode_ustr decode_ascii_def CR_def)
  have s: "startswith (ustr ''er zz'') (ustr ''er'')"
    by (simp add: startswith_def ustr_def)
  have v: "int16 (strip (drop 2 (ustr ''er zz''))) = Inl ValueError"
    by (simp add: ustr_def strip_def isspace_def int16_def c_isspace_def hex_numeral_def hex_digit_def)
  show ?thesis
    using issue_action_command_value_error [OF c s v, of Inr] by simp
qed

text \<open>
  C9 (one frame consumed).  Every call of \<open>communicate\<close> that returns a response started
  with an empty input buffer, and read the chunks of \<open>k\<close> waits that held no terminator
  and then, from the next chunk, the bytes \<open>pre\<close> up to its first terminator and that
  terminator.  The response is those bytes decoded, and holds no carriage return.  What
  came after the terminator in that chunk, \<open>post\<close>, is in the input buffer, byte for byte,
  and the later arrivals are untouched.  If \<open>post\<close> is not empty, the next call raises the
  stale-buffer error.
\<close>

theorem communicate_consumes_one_frame:
  assumes "communicate command self = Some (Inr response, self')"
  shows "\<exists>k pre post.
           in_buffer (port self) = [] \<and>
           (\<forall>i<k. arrivals (port self) i \<noteq> [] \<and> CR \<notin> set (arrivals (port self) i)) \<and>
           arrivals (port self) k = pre @ CR # post \<and> CR \<notin> set pre \<and>
           response = ustr (concat (map (arrivals (port self)) [0..<k]) @ pre) \<and>
           13 \<notin> set response \<and>
           in_buffer (port self') = post \<and>
           arrivals (port self') = (\<lambda>i. arrivals (port self) (i + Suc k)) \<and>
           (post \<noteq> [] \<longrightarrow>
              (\<forall>next_command. communicate next_command self' =
                 Some (Inl (SerialCommunicationError
                         [Lit ''There were unread bytes in the input buffer'']), self')))"
proof -
  note path = communicate_success_path [OF assms]
  let ?ch = "port self\<lparr>written := written (port self) @ [map char_of command @ [CR]]\<rparr>"
  have buf: "in_buffer (port self) = []"
    using path(2) by (simp add: in_waiting_def)
  obtain raw ch' where "read_loop command [] ?ch = Some (Inr raw, ch')"
    using path(5) by blast
  then have "CR \<in> set (in_buffer ?ch) \<or>
         (\<exists>k. (\<forall>i<k. arrivals ?ch i \<noteq> [] \<and> CR \<notin> set (arrivals ?ch i)) \<and>
              CR \<in> set (arrivals ?ch k))"
    using endswith_Nil by (rule read_loop_response_reachable)
  then obtain k where k: "\<forall>i<k. arrivals (port self) i \<noteq> [] \<and> CR \<notin> set (arrivals (port self) i)"
    and "CR \<in> set (arrivals (port self) k)"
    using buf by auto
  then obtain pre post where split: "arrivals (port self) k = pre @ CR # post" "CR \<notin> set pre"
    by (meson split_list_first)
  let ?got = "concat (map (arrivals (port self)) [0..<k]) @ pre"
  let ?end = "self\<lparr>port := port self
                 \<lparr>in_buffer := post, arrivals := (\<lambda>i. arrivals (port self) (i + Suc k)),
                  written := written (port self) @ [map char_of command @ [CR]]\<rparr>\<rparr>"
  have "communicate command self = Some (decode_ascii ?got, ?end)"
    using path(1-4) k split by (rule communicate_response)
  with assms have d: "decode_ascii ?got = Inr response" and e: "self' = ?end"
    by simp_all
  have r: "response = ustr ?got"
    using d by (simp add: decode_ascii_def split: if_splits)
  have "CR \<notin> set ?got"
    using k split(2) by auto
  then have no_cr: "13 \<notin> set response"
    unfolding r ustr_def by (auto simp: of_char_CR)
  have stale: "communicate next_command self' =
                 Some (Inl (SerialCommunicationError
                         [Lit ''There were unread bytes in the input buffer'']), self')"
    if "post \<noteq> []" for next_command
  proof -
    have "\<not> lock self'" and "in_waiting (port self') \<noteq> 0"
      using path(1) that by (simp_all add: e in_waiting_def)
    then show ?thesis
      by (cases self') (simp add: communicate_def lock_threading_lock_def communicate_locked_def)
  qed
  have "in_buffer (port self') = post"
    and "arrivals (port self') = (\<lambda>i. arrivals (port self) (i + Suc k))"
    by (simp_all add: e)
  with buf k split r no_cr stale show ?thesis
    by blast
qed


theorem communicate_consumes_one_frame_witness:
  "communicate (ustr ''ll:sm'') (quiet_device [''ok '', ''05'' @ CR # ''zz'']) =
     Some (Inr (ustr ''ok 05''),
           \<lparr>port = \<lparr>in_buffer = ''zz'', arrivals = (\<lambda>k. []),
                    written = [''ll:sm'' @ [CR]], tx_ready = True\<rparr>, lock = False\<rparr>) \<and>
   (\<exists>k pre post.
      (\<forall>i<k. arrivals (port (quiet_device [''ok '', ''05'' @ CR # ''zz''])) i \<noteq> []) \<and>
      arrivals (port (quiet_device [''ok '', ''05'' @ CR # ''zz''])) k = pre @ CR # post \<and>
      ustr ''ok 05'' =
        ustr (concat (map (arrivals (port (quiet_device [''ok '', ''05'' @ CR # ''zz'']))) [0..<k])
              @ pre) \<and>
      post = ''zz'')"
proof -
  have c: "communicate (ustr ''ll:sm'') (quiet_device [''ok '', ''05'' @ CR # ''zz'']) =
     Some (Inr (ustr ''ok 05''),
           \<lparr>port = \<lparr>in_buffer = ''zz'', arrivals = (\<lambda>k. []),
                    written = [''ll:sm'' @ [CR]], tx_ready = True\<rparr>, lock = False\<rparr>)"
    using communicate_response
      [of "quiet_device [''ok '', ''05'' @ CR # ''zz'']" "ustr ''ll:sm''" 1 "''05''" "''zz''"]
    by (simp add: quiet_device_def in_waiting_def CR_def decode_ascii_def ustr_ascii encode_ustr)
  from communicate_consumes_one_frame [OF c] c show ?thesis
    by auto
qed

text \<open>
  C10 (command outside ASCII).  With the lock free, a command that holds a character
  outside ASCII never reaches the channel: the stale-buffer check comes first, and where it
  passes the encoding error is raised.  Either way the engine is left as it was: nothing
  written, the lock free.
\<close>

theorem communicate_non_ascii:
  assumes "\<not> lock self" and "\<exists>c\<in>set command. 128 \<le> c"
  shows "communicate command self =
         Some (Inl (if in_waiting (port self) \<noteq> 0
                    then SerialCommunicationError
                           [Lit ''There were unread bytes in the input buffer'']
                    else UnicodeEncodeError), self)"
proof -
  from assms(2) obtain c where "c \<in> set command" and "\<not> c < 128"
    by (auto simp: not_less)
  then have "\<not> list_all (\<lambda>c. c < 128) command"
    by (auto simp: list_all_iff)
  then show ?thesis
    using assms(1)
    by (cases self)
       (simp add: communicate_def lock_threading_lock_def communicate_locked_def encode_ascii_def)
qed

theorem communicate_non_ascii_witness:
  "communicate [99, 104, 58, 98, 233] (quiet_device [''bs 01'' @ [CR]]) =
   Some (Inl UnicodeEncodeError, quiet_device [''bs 01'' @ [CR]])"
  using communicate_non_ascii [of "quiet_device [''bs 01'' @ [CR]]" "[99, 104, 58, 98, 233]"]
  by (simp add: quiet_device_def in_waiting_def)

end
